theory Spec2Isabelle
  imports Main "HOL-Library.Word"
begin

unbundle bit_operations_syntax

section \<open>Common types\<close>

type_synonym uint32_t = "32 word"

text \<open>
  \<^verbatim>\<open>THERON_ASSERT\<close> is modelled as an error value: an operation whose assertion
  fails returns \<open>Inl AssertionFailed\<close> and no state.
\<close>

datatype error = AssertionFailed

section \<open>Mailbox (Include/Theron/Detail/Mailboxes/Mailbox.h)\<close>

subsection \<open>The message queue\<close>

text \<open>
  Modelled from the spec: \<^verbatim>\<open>Queue<IMessage>\<close> (the type of \<^verbatim>\<open>Mailbox::mQueue\<close>) is
  declared in a header that is not part of the sources at hand. The specification
  describes it as an unbounded FIFO of message pointers whose \<^verbatim>\<open>front\<close> and
  \<^verbatim>\<open>pop\<close> return null when it is empty: pushing appends at the back, popping
  removes at the front. A message pointer is an \<open>'m option\<close>, \<open>None\<close> being the
  null pointer.
\<close>

type_synonym 'm Queue = "'m list"

definition Queue_Empty :: "'m Queue \<Rightarrow> bool" where
  "Queue_Empty q = (q = [])"

definition Queue_Push :: "'m Queue \<Rightarrow> 'm \<Rightarrow> 'm Queue" where
  "Queue_Push q item = q @ [item]"

definition Queue_Front :: "'m Queue \<Rightarrow> 'm option" where
  "Queue_Front q = (case q of [] \<Rightarrow> None | item # _ \<Rightarrow> Some item)"

definition Queue_Pop :: "'m Queue \<Rightarrow> 'm option \<times> 'm Queue" where
  "Queue_Pop q = (case q of [] \<Rightarrow> (None, []) | item # rest \<Rightarrow> (Some item, rest))"

subsection \<open>The mailbox record and its operations\<close>

text \<open>
  The fields of \<^verbatim>\<open>class Mailbox\<close>, without the spin lock (locking is not modelled).
  \<^verbatim>\<open>Actor *mActor\<close> is an \<open>'a option\<close>, \<open>None\<close> being the null pointer.
\<close>

record ('m, 'a) Mailbox =
  mName :: string
  mQueue :: "'m Queue"
  mMessageCount :: uint32_t
  mActor :: "'a option"
  mPinCount :: uint32_t

definition Mailbox_ctor :: "('m, 'a) Mailbox" where
  "Mailbox_ctor =
     \<lparr> mName = [], mQueue = [], mMessageCount = 0, mActor = None, mPinCount = 0 \<rparr>"

definition GetName :: "('m, 'a) Mailbox \<Rightarrow> string" where
  "GetName mb = mName mb"

definition SetName :: "('m, 'a) Mailbox \<Rightarrow> string \<Rightarrow> ('m, 'a) Mailbox" where
  "SetName mb name = mb\<lparr>mName := name\<rparr>"

definition Empty :: "('m, 'a) Mailbox \<Rightarrow> bool" where
  "Empty mb = Queue_Empty (mQueue mb)"

definition Push :: "('m, 'a) Mailbox \<Rightarrow> 'm \<Rightarrow> ('m, 'a) Mailbox" where
  "Push mb message =
     mb\<lparr>mQueue := Queue_Push (mQueue mb) message,
        mMessageCount := mMessageCount mb + 1\<rparr>"

definition Front :: "('m, 'a) Mailbox \<Rightarrow> 'm option" where
  "Front mb = Queue_Front (mQueue mb)"

text \<open>
  \<^verbatim>\<open>--mMessageCount; return mQueue.Pop();\<close> The decrement is unconditional and wraps
  at zero, as \<^verbatim>\<open>uint32_t\<close> does.
\<close>

definition Pop :: "('m, 'a) Mailbox \<Rightarrow> 'm option \<times> ('m, 'a) Mailbox" where
  "Pop mb =
     (fst (Queue_Pop (mQueue mb)),
      mb\<lparr>mMessageCount := mMessageCount mb - 1,
         mQueue := snd (Queue_Pop (mQueue mb))\<rparr>)"

definition Count :: "('m, 'a) Mailbox \<Rightarrow> uint32_t" where
  "Count mb = mMessageCount mb"

definition RegisterActor ::
  "('m, 'a) Mailbox \<Rightarrow> 'a option \<Rightarrow> error + ('m, 'a) Mailbox" where
  "RegisterActor mb actor =
     (if mPinCount mb \<noteq> 0 then Inl AssertionFailed
      else if mActor mb \<noteq> None then Inl AssertionFailed
      else if actor = None then Inl AssertionFailed
      else Inr (mb\<lparr>mActor := actor\<rparr>))"

definition DeregisterActor :: "('m, 'a) Mailbox \<Rightarrow> error + ('m, 'a) Mailbox" where
  "DeregisterActor mb =
     (if mPinCount mb \<noteq> 0 then Inl AssertionFailed
      else if mActor mb = None then Inl AssertionFailed
      else Inr (mb\<lparr>mActor := None\<rparr>))"

definition GetActor :: "('m, 'a) Mailbox \<Rightarrow> 'a option" where
  "GetActor mb = mActor mb"

definition Pin :: "('m, 'a) Mailbox \<Rightarrow> ('m, 'a) Mailbox" where
  "Pin mb = mb\<lparr>mPinCount := mPinCount mb + 1\<rparr>"

definition Unpin :: "('m, 'a) Mailbox \<Rightarrow> error + ('m, 'a) Mailbox" where
  "Unpin mb =
     (if \<not> (mPinCount mb > 0) then Inl AssertionFailed
      else Inr (mb\<lparr>mPinCount := mPinCount mb - 1\<rparr>))"

definition IsPinned :: "('m, 'a) Mailbox \<Rightarrow> bool" where
  "IsPinned mb = (mPinCount mb > 0)"

subsection \<open>Running a sequence of queue operations\<close>





section \<open>Framework parameters (Framework.h)\<close>

datatype YieldStrategy =
  YIELD_STRATEGY_POLITE | YIELD_STRATEGY_STRONG | YIELD_STRATEGY_AGGRESSIVE

record Parameters =
  mThreadCount :: uint32_t
  mNodeMask :: uint32_t
  mProcessorMask :: uint32_t
  mYieldStrategy :: YieldStrategy

text \<open>
  The constructor of \<^verbatim>\<open>Framework::Parameters\<close> has a default for each of its four
  arguments; an argument that the caller leaves out is \<open>None\<close> here.
\<close>

definition Parameters_ctor ::
  "uint32_t option \<Rightarrow> uint32_t option \<Rightarrow> uint32_t option \<Rightarrow> YieldStrategy option
     \<Rightarrow> Parameters" where
  "Parameters_ctor threadCount nodeMask processorMask yieldStrategy =
     \<lparr> mThreadCount = (case threadCount of None \<Rightarrow> 16 | Some v \<Rightarrow> v),
       mNodeMask = (case nodeMask of None \<Rightarrow> 0x1 | Some v \<Rightarrow> v),
       mProcessorMask = (case processorMask of None \<Rightarrow> 0xFFFFFFFF | Some v \<Rightarrow> v),
       mYieldStrategy =
         (case yieldStrategy of None \<Rightarrow> YIELD_STRATEGY_POLITE | Some v \<Rightarrow> v) \<rparr>"

section \<open>Framework::Send (Framework.h)\<close>

text \<open>
  The members of \<^verbatim>\<open>class Framework\<close> that sending can reach, without threads and
  locks. \<^verbatim>\<open>mMailboxes\<close> is the directory, a map from mailbox index to mailbox;
  \<^verbatim>\<open>mWorkQueue\<close> is the shared work queue behind \<^verbatim>\<open>mProcessorContext\<close>, holding
  the indices of the mailboxes that are ready; \<open>mFallbackCalls\<close> records, in order, the
  messages with which \<^verbatim>\<open>mFallbackHandlers\<close> was invoked. The state of the message
  allocator is a type parameter. \<^verbatim>\<open>Framework::mThreadCount\<close> is \<open>mFrameworkThreadCount\<close>
  and \<^verbatim>\<open>Framework::mName\<close> is \<open>mFrameworkName\<close> here, since the records
  \<open>Parameters\<close> and \<open>Mailbox\<close> have fields of those names.
\<close>

record ('m, 'a, 'alloc) Framework =
  mParams :: Parameters
  mIndex :: uint32_t
  mFrameworkName :: string
  mMailboxes :: "uint32_t \<rightharpoonup> ('m, 'a) Mailbox"
  mFallbackCalls :: "'m list"
  mWorkQueue :: "uint32_t list"
  mMessageAllocator :: 'alloc
  mRunning :: bool
  mTargetThreadCount :: uint32_t
  mPeakThreadCount :: uint32_t
  mFrameworkThreadCount :: uint32_t

text \<open>
  \<^verbatim>\<open>Framework::Send\<close> calls two functions whose headers are not part of the sources at
  hand, so both are parameters here: \<open>Create\<close> stands for
  \<^verbatim>\<open>MessageCreator::Create(messageAllocator, value, from)\<close>, which returns the message
  pointer (\<open>None\<close> is null) and the allocator's new state, and \<open>Sender\<close> stands for
  \<^verbatim>\<open>MessageSender::Send\<close>, which is given the framework's context, the message and
  the destination address.
\<close>

definition Framework_Send ::
  "('alloc \<Rightarrow> 'v \<Rightarrow> 'addr \<Rightarrow> 'm option \<times> 'alloc)
     \<Rightarrow> (('m, 'a, 'alloc) Framework \<Rightarrow> 'm \<Rightarrow> 'addr \<Rightarrow> bool \<times> ('m, 'a, 'alloc) Framework)
     \<Rightarrow> ('m, 'a, 'alloc) Framework \<Rightarrow> 'v \<Rightarrow> 'addr \<Rightarrow> 'addr
     \<Rightarrow> bool \<times> ('m, 'a, 'alloc) Framework" where
  "Framework_Send Create Sender fw val sender address =
     (case Create (mMessageAllocator fw) val sender of
        (message, messageAllocator) \<Rightarrow>
          (case message of
             None \<Rightarrow> (False, fw\<lparr>mMessageAllocator := messageAllocator\<rparr>)
           | Some m \<Rightarrow> Sender (fw\<lparr>mMessageAllocator := messageAllocator\<rparr>) m address))"

text \<open>
  Modelled from the spec: \<^verbatim>\<open>Address\<close> is declared in a header that is not part of the
  sources at hand. The specification describes it as a pair of a framework index and a
  mailbox index.
\<close>

record Address =
  framework_index :: uint32_t
  mailbox_index :: uint32_t

text \<open>
  Modelled from the spec: \<^verbatim>\<open>MessageSender::Send\<close> is declared in a header that is not
  part of the sources at hand. This follows steps 3 to 7 of \<open>send\<close> in section 4.10 of
  the specification and the row \<open>UnknownRecipient\<close> of its section 7, for a destination
  in the sending framework: when the directory has no mailbox at the index, or the
  mailbox has no actor and no message queued before this one, the fallback handler is
  invoked, the message is freed and the result is true; otherwise the message is pushed
  and the mailbox is put on the work queue if it was empty. \<open>Destroy\<close> stands for
  returning the message's block to the allocator. A destination in another framework or
  behind an endpoint is left to the parameter \<open>forward\<close>.
\<close>

definition MessageSender_Send ::
  "('alloc \<Rightarrow> 'm \<Rightarrow> 'alloc)
     \<Rightarrow> (('m, 'a, 'alloc) Framework \<Rightarrow> 'm \<Rightarrow> Address \<Rightarrow> bool \<times> ('m, 'a, 'alloc) Framework)
     \<Rightarrow> ('m, 'a, 'alloc) Framework \<Rightarrow> 'm \<Rightarrow> Address
     \<Rightarrow> bool \<times> ('m, 'a, 'alloc) Framework" where
  "MessageSender_Send Destroy forward fw message address =
     (if framework_index address \<noteq> mIndex fw then forward fw message address
      else case mMailboxes fw (mailbox_index address) of
        None \<Rightarrow>
          (True, fw\<lparr>mFallbackCalls := mFallbackCalls fw @ [message],
                    mMessageAllocator := Destroy (mMessageAllocator fw) message\<rparr>)
      | Some mailbox \<Rightarrow>
          if GetActor mailbox = None \<and> Empty mailbox
          then (True, fw\<lparr>mFallbackCalls := mFallbackCalls fw @ [message],
                         mMessageAllocator := Destroy (mMessageAllocator fw) message\<rparr>)
          else (True, fw\<lparr>mMailboxes :=
                           (mMailboxes fw)(mailbox_index address \<mapsto> Push mailbox message),
                         mWorkQueue :=
                           (if Empty mailbox then mWorkQueue fw @ [mailbox_index address]
                            else mWorkQueue fw)\<rparr>))"

section \<open>Pool (Detail/Allocators/Pool.h)\<close>

subsection \<open>Memory\<close>

text \<open>
  The pool's free list is threaded through the cached blocks: \<^verbatim>\<open>Add\<close> casts the block
  to a \<^verbatim>\<open>Node\<close> and writes \<^verbatim>\<open>mNext\<close> into it. So the operations act on memory, and
  the model passes it explicitly: a \<open>heap\<close> gives, for the address of a node, the
  \<^verbatim>\<open>mNext\<close> pointer stored there. Addresses are 64-bit (\<^verbatim>\<open>uintptr_t\<close>), and 0 is the
  null pointer.
\<close>

type_synonym uintptr_t = "64 word"

type_synonym heap = "uintptr_t \<Rightarrow> uintptr_t"

text \<open>
  The fields of \<^verbatim>\<open>class Pool\<close> without the lock: the \<^verbatim>\<open>mNext\<close> of the dummy node
  \<^verbatim>\<open>mHead\<close>, and the block count.
\<close>

record Pool =
  mHead_mNext :: uintptr_t
  mBlockCount :: uint32_t

definition MAX_BLOCKS :: uint32_t where
  "MAX_BLOCKS = 16"

definition Pool_ctor :: Pool where
  "Pool_ctor = \<lparr> mHead_mNext = 0, mBlockCount = 0 \<rparr>"

subsection \<open>Operations\<close>

definition Pool_Empty :: "Pool \<Rightarrow> error + bool" where
  "Pool_Empty p =
     (if (mBlockCount p = 0 \<and> mHead_mNext p = 0) \<or> (mBlockCount p \<noteq> 0 \<and> mHead_mNext p \<noteq> 0)
      then Inr (mBlockCount p = 0)
      else Inl AssertionFailed)"

definition Add :: "heap \<Rightarrow> Pool \<Rightarrow> uintptr_t \<Rightarrow> error + (bool \<times> heap \<times> Pool)" where
  "Add h p memory =
     (if memory = 0 then Inl AssertionFailed
      else if mBlockCount p < MAX_BLOCKS
        then Inr (True, h(memory := mHead_mNext p),
                  p\<lparr>mHead_mNext := memory, mBlockCount := mBlockCount p + 1\<rparr>)
        else Inr (False, h, p))"

text \<open>
  In \<^verbatim>\<open>FetchAligned\<close> the pointer \<^verbatim>\<open>previous\<close> is the address of the dummy head or of
  a block; \<open>unlink\<close> is its two statements \<^verbatim>\<open>previous->mNext = next; --mBlockCount;\<close>.
\<close>

datatype node_ptr = Head | Block uintptr_t

definition unlink :: "heap \<Rightarrow> Pool \<Rightarrow> node_ptr \<Rightarrow> uintptr_t \<Rightarrow> heap \<times> Pool" where
  "unlink h p previous next =
     (case previous of
        Head \<Rightarrow> (h, p\<lparr>mHead_mNext := next, mBlockCount := mBlockCount p - 1\<rparr>)
      | Block b \<Rightarrow> (h(b := next), p\<lparr>mBlockCount := mBlockCount p - 1\<rparr>))"

text \<open>
  The \<^verbatim>\<open>while (node)\<close> loop. It follows pointers in memory and need not end (on a
  cyclic list it runs forever), so it is a partial function: \<open>None\<close> means that the
  loop does not return.
\<close>

partial_function (option) FetchAligned_loop ::
  "heap \<Rightarrow> Pool \<Rightarrow> uintptr_t \<Rightarrow> node_ptr \<Rightarrow> uintptr_t \<Rightarrow> (uintptr_t \<times> heap \<times> Pool) option"
  where
  "FetchAligned_loop h p alignmentMask previous node =
     (if node \<noteq> 0 then
        (if node AND alignmentMask = 0
         then Some (node, unlink h p previous (h node))
         else FetchAligned_loop h p alignmentMask (Block node) (h node))
      else Some (0, h, p))"

declare FetchAligned_loop.simps [code]

text \<open>
  \<^verbatim>\<open>alignmentMask\<close> is computed in \<^verbatim>\<open>uint32_t\<close> (so an alignment of 0 wraps to
  \<^verbatim>\<open>0xFFFFFFFF\<close>) and zero-extended for the \<^verbatim>\<open>&\<close> with the address.
\<close>

definition FetchAligned ::
  "heap \<Rightarrow> Pool \<Rightarrow> uint32_t \<Rightarrow> (uintptr_t \<times> heap \<times> Pool) option" where
  "FetchAligned h p alignment =
     FetchAligned_loop h p (ucast (alignment - 1)) Head (mHead_mNext p)"

definition Fetch :: "heap \<Rightarrow> Pool \<Rightarrow> uintptr_t \<times> Pool" where
  "Fetch h p =
     (if mHead_mNext p \<noteq> 0
      then (mHead_mNext p,
            p\<lparr>mHead_mNext := h (mHead_mNext p), mBlockCount := mBlockCount p - 1\<rparr>)
      else (0, p))"

subsection \<open>The list a pool holds\<close>

text \<open>
  \<open>path h a bs z\<close>: following \<^verbatim>\<open>mNext\<close> from \<open>a\<close> visits exactly the blocks \<open>bs\<close>, none
  of them null, and arrives at \<open>z\<close>. The free list of a pool is the path from
  \<^verbatim>\<open>mHead.mNext\<close> to null.
\<close>

fun path :: "heap \<Rightarrow> uintptr_t \<Rightarrow> uintptr_t list \<Rightarrow> uintptr_t \<Rightarrow> bool" where
  "path h a [] z = (a = z)"
| "path h a (b # bs) z = (a = b \<and> b \<noteq> 0 \<and> path h (h b) bs z)"

definition chain :: "heap \<Rightarrow> uintptr_t \<Rightarrow> uintptr_t list \<Rightarrow> bool" where
  "chain h a bs = path h a bs 0"

text \<open>
  \<open>pool_blocks h p bs\<close>: the pool \<open>p\<close> in memory \<open>h\<close> caches exactly the blocks \<open>bs\<close>,
  head first, at most 16 of them, and \<^verbatim>\<open>mBlockCount\<close> is their number.
\<close>

definition pool_blocks :: "heap \<Rightarrow> Pool \<Rightarrow> uintptr_t list \<Rightarrow> bool" where
  "pool_blocks h p bs =
     (chain h (mHead_mNext p) bs \<and> length bs \<le> 16 \<and> mBlockCount p = of_nat (length bs))"

text \<open>
  The test of \<^verbatim>\<open>FetchAligned\<close>, which its comment names: \<^verbatim>\<open>THERON_ALIGNED\<close> with the
  mask \<^verbatim>\<open>alignment - 1\<close>.
\<close>

definition THERON_ALIGNED :: "uintptr_t \<Rightarrow> uint32_t \<Rightarrow> bool" where
  "THERON_ALIGNED a alignment = (a AND ucast (alignment - 1) = 0)"

subsection \<open>Running a sequence of pool operations\<close>

datatype pool_op = DoAdd uintptr_t | DoFetch | DoFetchAligned uint32_t

text \<open>
  One operation on the pool in memory; \<open>None\<close> when an assertion fails or the operation
  does not return.
\<close>

fun pool_step :: "heap \<times> Pool \<Rightarrow> pool_op \<Rightarrow> (heap \<times> Pool) option" where
  "pool_step (h, p) (DoAdd b) =
     (case Add h p b of Inl _ \<Rightarrow> None | Inr (_, h', p') \<Rightarrow> Some (h', p'))"
| "pool_step (h, p) DoFetch = Some (h, snd (Fetch h p))"
| "pool_step (h, p) (DoFetchAligned alignment) =
     (case FetchAligned h p alignment of None \<Rightarrow> None | Some (_, h', p') \<Rightarrow> Some (h', p'))"

fun pool_run :: "heap \<times> Pool \<Rightarrow> pool_op list \<Rightarrow> (heap \<times> Pool) option" where
  "pool_run s [] = Some s"
| "pool_run s (x # ops) =
     (case pool_step s x of None \<Rightarrow> None | Some s' \<Rightarrow> pool_run s' ops)"

text \<open>
  The specification's reading of the three operations, on the list of cached blocks:
  \<open>add\<close> prepends unless 16 blocks are cached, \<open>fetch\<close> pops the head, \<open>fetch_aligned\<close>
  removes the first aligned block.
\<close>

fun cached_after :: "uintptr_t list \<Rightarrow> pool_op \<Rightarrow> uintptr_t list" where
  "cached_after bs (DoAdd b) = (if length bs < 16 then b # bs else bs)"
| "cached_after bs DoFetch = tl bs"
| "cached_after bs (DoFetchAligned alignment) =
     (case find (\<lambda>b. THERON_ALIGNED b alignment) bs of None \<Rightarrow> bs | Some b \<Rightarrow> remove1 b bs)"

text \<open>
  The caller's side of the free list: a block handed to \<^verbatim>\<open>Add\<close> is not null (the
  assertion of \<^verbatim>\<open>Add\<close>) and is not in the pool already (the pool writes its link into
  the block, so adding a cached block again would tie the list into a cycle).
  \<open>adds_owned bs ops\<close> says so for every \<open>DoAdd\<close> of \<open>ops\<close>, run from the cached blocks
  \<open>bs\<close>.
\<close>

fun adds_owned :: "uintptr_t list \<Rightarrow> pool_op list \<Rightarrow> bool" where
  "adds_owned bs [] = True"
| "adds_owned bs (DoAdd b # ops) =
     (b \<noteq> 0 \<and> b \<notin> set bs \<and> adds_owned (cached_after bs (DoAdd b)) ops)"
| "adds_owned bs (DoFetch # ops) = adds_owned (cached_after bs DoFetch) ops"
| "adds_owned bs (DoFetchAligned alignment # ops) =
     adds_owned (cached_after bs (DoFetchAligned alignment)) ops"

section \<open>Example states\<close>

text \<open>
  A small framework for the concrete instances below: messages and actors are numbers,
  the allocator's state is the number of blocks it can still hand out. The framework
  has index 1 and two mailboxes: mailbox 1 has the actor 7 bound, mailbox 2 has no
  actor and an empty queue.
\<close>

definition example_framework :: "(nat, nat, nat) Framework" where
  "example_framework =
     \<lparr> mParams = Parameters_ctor None None None None,
       mIndex = 1,
       mFrameworkName = ''fw'',
       mMailboxes = [1 \<mapsto> Mailbox_ctor\<lparr>mActor := Some 7\<rparr>, 2 \<mapsto> Mailbox_ctor],
       mFallbackCalls = [],
       mWorkQueue = [],
       mMessageAllocator = 1,
       mRunning = True,
       mTargetThreadCount = 16,
       mPeakThreadCount = 16,
       mFrameworkThreadCount = 16 \<rparr>"

definition example_Create :: "nat \<Rightarrow> nat \<Rightarrow> Address \<Rightarrow> nat option \<times> nat" where
  "example_Create blocks val sender =
     (if blocks = 0 then (None, blocks) else (Some val, blocks - 1))"

definition example_Destroy :: "nat \<Rightarrow> nat \<Rightarrow> nat" where
  "example_Destroy blocks message = blocks + 1"

definition example_forward ::
  "(nat, nat, nat) Framework \<Rightarrow> nat \<Rightarrow> Address \<Rightarrow> bool \<times> (nat, nat, nat) Framework" where
  "example_forward fw message address = (False, fw)"

text \<open>
  Memory and pools. In \<open>null_heap\<close> every link is null. In \<open>example_heap\<close> the
  block at 8 links to the block at 16, which ends the list; \<open>example_pool\<close> caches
  these two blocks. In \<open>full_heap\<close> the blocks at 8, 16, ..., 128 are linked in this
  order; \<open>full_pool\<close> caches these 16 blocks.
\<close>

definition null_heap :: heap where
  "null_heap = (\<lambda>_. 0)"

definition example_heap :: heap where
  "example_heap = null_heap(8 := 16)"

definition example_pool :: Pool where
  "example_pool = \<lparr> mHead_mNext = 8, mBlockCount = 2 \<rparr>"

definition full_heap :: heap where
  "full_heap a = (if a \<noteq> 0 \<and> a \<le> 120 \<and> a AND 7 = 0 then a + 8 else 0)"

definition full_pool :: Pool where
  "full_pool = \<lparr> mHead_mNext = 8, mBlockCount = 16 \<rparr>"

definition example_ops :: "pool_op list" where
  "example_ops =
     [DoAdd 8, DoAdd 16, DoAdd 24, DoAdd 32, DoAdd 40, DoAdd 48, DoAdd 56, DoAdd 64,
      DoAdd 72, DoAdd 80, DoAdd 88, DoAdd 96, DoAdd 104, DoAdd 112, DoAdd 120, DoAdd 128,
      DoAdd 136, DoFetchAligned 64, DoFetch, DoFetchAligned 256]"

section \<open>Properties of the mailbox\<close>





lemma Push_effect:
  "mQueue (Push mb message) = mQueue mb @ [message]
     \<and> mMessageCount (Push mb message) = mMessageCount mb + 1"
  by (simp add: Push_def Queue_Push_def)

lemma Count_after_pushes:
  "Count (foldl Push mb messages) = Count mb + of_nat (length messages)"
  by (induction messages arbitrary: mb) (simp_all add: Count_def Push_def)

lemma Pop_nonempty_effect:
  "mQueue mb = item # rest \<Longrightarrow>
     Pop mb = (Some item, mb\<lparr>mMessageCount := mMessageCount mb - 1, mQueue := rest\<rparr>)"
  by (simp add: Pop_def Queue_Pop_def)

text \<open>
  Where the count follows the queue, \<open>Push\<close> keeps it so, and so does \<open>Pop\<close> on a
  mailbox that is not empty.
\<close>

lemma Push_keeps_count:
  "mMessageCount mb = of_nat (length (mQueue mb)) \<Longrightarrow>
     mMessageCount (Push mb message) = of_nat (length (mQueue (Push mb message)))"
  by (simp add: Push_def Queue_Push_def)

lemma Pop_nonempty_keeps_count:
  "mMessageCount mb = of_nat (length (mQueue mb)) \<Longrightarrow> mQueue mb \<noteq> [] \<Longrightarrow>
     mMessageCount (snd (Pop mb)) = of_nat (length (mQueue (snd (Pop mb))))"
  by (cases "mQueue mb") (simp_all add: Pop_def Queue_Pop_def)

text \<open>
  Claim C1. The claim: for every mailbox the message count is zero exactly when the
  queue is empty, after every operation; \<open>Push\<close> appends and adds one to the count,
  \<open>Pop\<close> removes and returns the head and takes one from the count, and returns null
  on an empty mailbox. The code's \<open>Pop\<close> decrements the count before it looks at the
  queue: on a newly constructed mailbox it returns null and leaves the queue empty, and
  the count wraps to \<open>0xFFFFFFFF\<close>, so that \<open>Count\<close> is not zero although \<open>Empty\<close>
  holds.
\<close>

theorem Pop_empty_mailbox_count_wraps:
  "fst (Pop Mailbox_ctor) = None
     \<and> Empty (snd (Pop Mailbox_ctor))
     \<and> Count (snd (Pop Mailbox_ctor)) = 0xFFFFFFFF
     \<and> \<not> (Count (snd (Pop Mailbox_ctor)) = 0 \<longleftrightarrow> Empty (snd (Pop Mailbox_ctor)))"
  by (simp add: Pop_def Mailbox_ctor_def Queue_Pop_def Empty_def Queue_Empty_def Count_def)


text \<open>
  Claim C8. A default-constructed \<open>Framework::Parameters\<close> has thread count 16, node
  mask \<open>0x1\<close>, processor mask \<open>0xFFFFFFFF\<close> and yield strategy POLITE.
\<close>

theorem Parameters_default:
  "mThreadCount (Parameters_ctor None None None None) = 16
     \<and> mNodeMask (Parameters_ctor None None None None) = 0x1
     \<and> mProcessorMask (Parameters_ctor None None None None) = 0xFFFFFFFF
     \<and> mYieldStrategy (Parameters_ctor None None None None) = YIELD_STRATEGY_POLITE"
  by (simp add: Parameters_ctor_def)

text \<open>
  Claim C9. For a mailbox with pin count zero: \<open>RegisterActor\<close> with a non-null actor,
  when no actor is bound, sets the actor field to that actor and leaves the name, the
  queue, the message count and the pin count unchanged; \<open>DeregisterActor\<close>, when an
  actor is bound, clears the actor field and leaves the other fields unchanged.
\<close>

theorem RegisterActor_DeregisterActor_frame:
  "(mPinCount mb = 0 \<and> mActor mb = None \<longrightarrow>
      (\<exists>mb'. RegisterActor mb (Some a) = Inr mb' \<and> mb' = mb\<lparr>mActor := Some a\<rparr>
         \<and> mActor mb' = Some a \<and> mName mb' = mName mb \<and> mQueue mb' = mQueue mb
         \<and> mMessageCount mb' = mMessageCount mb \<and> mPinCount mb' = mPinCount mb))
   \<and> (mPinCount mb = 0 \<and> mActor mb \<noteq> None \<longrightarrow>
      (\<exists>mb'. DeregisterActor mb = Inr mb' \<and> mb' = mb\<lparr>mActor := None\<rparr>
         \<and> mActor mb' = None \<and> mName mb' = mName mb \<and> mQueue mb' = mQueue mb
         \<and> mMessageCount mb' = mMessageCount mb \<and> mPinCount mb' = mPinCount mb))"
  by (simp add: RegisterActor_def DeregisterActor_def)

theorem RegisterActor_DeregisterActor_frame_witness:
  "RegisterActor \<lparr>mName = ''a'', mQueue = [1::nat], mMessageCount = 1, mActor = None,
                  mPinCount = 0\<rparr> (Some (7::nat))
     = Inr \<lparr>mName = ''a'', mQueue = [1], mMessageCount = 1, mActor = Some 7, mPinCount = 0\<rparr>
   \<and> DeregisterActor \<lparr>mName = ''a'', mQueue = [1::nat], mMessageCount = 1,
                       mActor = Some (7::nat), mPinCount = 0\<rparr>
     = Inr \<lparr>mName = ''a'', mQueue = [1], mMessageCount = 1, mActor = None, mPinCount = 0\<rparr>"
  using RegisterActor_DeregisterActor_frame
          [of "\<lparr>mName = ''a'', mQueue = [1::nat], mMessageCount = 1, mActor = None,
                mPinCount = 0\<rparr>" "7::nat"]
        RegisterActor_DeregisterActor_frame
          [of "\<lparr>mName = ''a'', mQueue = [1::nat], mMessageCount = 1, mActor = Some (7::nat),
                mPinCount = 0\<rparr>" "7::nat"]
  by simp

section \<open>Properties of Framework::Send\<close>

text \<open>
  Claim C2. For every value, sender address and destination address: if the message
  allocation of \<open>Framework::Send\<close> returns null, then \<open>Send\<close> returns false and nothing
  of the framework changes beyond what the allocation attempt itself did to the
  allocator: no mailbox is pushed to, no fallback handler is invoked, nothing is put on
  the work queue. This holds whatever \<open>MessageSender::Send\<close> does, since it is not
  called.
\<close>

theorem Framework_Send_allocation_failure:
  assumes "fst (Create (mMessageAllocator fw) val sender) = None"
  shows "Framework_Send Create Sender fw val sender address
           = (False, fw\<lparr>mMessageAllocator := snd (Create (mMessageAllocator fw) val sender)\<rparr>)
         \<and> mMailboxes (snd (Framework_Send Create Sender fw val sender address)) = mMailboxes fw
         \<and> mFallbackCalls (snd (Framework_Send Create Sender fw val sender address))
             = mFallbackCalls fw
         \<and> mWorkQueue (snd (Framework_Send Create Sender fw val sender address))
             = mWorkQueue fw"
  using assms
  by (cases "Create (mMessageAllocator fw) val sender") (simp add: Framework_Send_def)


theorem Framework_Send_allocation_failure_witness:
  "fst (example_Create (mMessageAllocator (example_framework\<lparr>mMessageAllocator := 0\<rparr>)) 42
          \<lparr>framework_index = 0, mailbox_index = 0\<rparr>) = None
   \<and> Framework_Send example_Create (MessageSender_Send example_Destroy example_forward)
        (example_framework\<lparr>mMessageAllocator := 0\<rparr>) 42
        \<lparr>framework_index = 0, mailbox_index = 0\<rparr> \<lparr>framework_index = 1, mailbox_index = 1\<rparr>
     = (False, example_framework\<lparr>mMessageAllocator := 0\<rparr>)"
  using Framework_Send_allocation_failure
          [of example_Create "example_framework\<lparr>mMessageAllocator := 0\<rparr>" 42
              "\<lparr>framework_index = 0, mailbox_index = 0\<rparr>"
              "MessageSender_Send example_Destroy example_forward"
              "\<lparr>framework_index = 1, mailbox_index = 1\<rparr>"]
  by (simp add: example_Create_def)




section \<open>Properties of the pool\<close>

subsection \<open>Lists in memory\<close>

lemma path_append: "path h a (xs @ ys) z = (\<exists>m. path h a xs m \<and> path h m ys z)"
  by (induction xs arbitrary: a) auto

lemma chain_Nil [simp]: "chain h a [] = (a = 0)"
  by (simp add: chain_def)

lemma chain_Cons [simp]: "chain h a (b # bs) = (a = b \<and> b \<noteq> 0 \<and> chain h (h b) bs)"
  by (simp add: chain_def)

lemma chain_null: "chain h 0 bs = (bs = [])"
  by (cases bs) auto

lemma chain_unique: "chain h a bs \<Longrightarrow> chain h a cs \<Longrightarrow> bs = cs"
proof (induction bs arbitrary: a cs)
  case Nil
  then show ?case by (cases cs) auto
next
  case (Cons b bs)
  then show ?case by (cases cs) auto
qed

lemma chain_nonnull: "chain h a bs \<Longrightarrow> 0 \<notin> set bs"
  by (induction bs arbitrary: a) auto

lemma path_upd: "u \<notin> set bs \<Longrightarrow> path (h(u := v)) a bs z = path h a bs z"
  by (induction bs arbitrary: a) auto

lemma chain_upd: "u \<notin> set bs \<Longrightarrow> chain (h(u := v)) a bs = chain h a bs"
  by (simp add: chain_def path_upd)

lemma chain_suffix: "chain h a (xs @ ys) \<Longrightarrow> \<exists>m. path h a xs m \<and> chain h m ys"
  by (simp add: chain_def path_append)

lemma chain_head_notin_tail: "chain h (h b) bs \<Longrightarrow> b \<notin> set bs"
proof
  assume c: "chain h (h b) bs" and "b \<in> set bs"
  then obtain xs ys where bs: "bs = xs @ b # ys" by (auto simp: in_set_conv_decomp)
  with c obtain m where "path h (h b) xs m" "chain h m (b # ys)"
    using chain_suffix by blast
  then have "chain h (h b) ys" by simp
  with c have "bs = ys" by (rule chain_unique)
  with bs show False by simp
qed

lemma chain_distinct: "chain h a bs \<Longrightarrow> distinct bs"
  by (induction bs arbitrary: a) (auto dest: chain_head_notin_tail)


lemma FetchAligned_loop_miss:
  "chain h node bs \<Longrightarrow> \<forall>b\<in>set bs. b AND msk \<noteq> 0 \<Longrightarrow>
     FetchAligned_loop h p msk previous node = Some (0, h, p)"
proof (induction bs arbitrary: previous node)
  case Nil
  then show ?case by (subst FetchAligned_loop.simps) simp
next
  case (Cons b bs)
  then show ?case by (subst FetchAligned_loop.simps) simp
qed

lemma FetchAligned_loop_hit:
  "chain h node (pre @ b # rest) \<Longrightarrow> \<forall>x\<in>set pre. x AND msk \<noteq> 0 \<Longrightarrow> b AND msk = 0 \<Longrightarrow>
     FetchAligned_loop h p msk previous node
       = Some (b, unlink h p (if pre = [] then previous else Block (last pre)) (h b))"
proof (induction pre arbitrary: previous node)
  case Nil
  then show ?case by (subst FetchAligned_loop.simps) simp
next
  case (Cons x pre)
  from Cons.prems have "chain h (h x) (pre @ b # rest)" "node = x" "x \<noteq> 0" "x AND msk \<noteq> 0"
    by simp_all
  with Cons.IH [of "h x" "Block x"] Cons.prems show ?case
    by (subst FetchAligned_loop.simps) simp
qed

lemma chain_unlink_inner:
  assumes "chain h a (pre @ c # b # rest)"
  shows "chain (h(c := h b)) a (pre @ c # rest)"
proof -
  from assms have d: "distinct (pre @ c # b # rest)" by (rule chain_distinct)
  from assms obtain m where p: "path h a pre m" and c: "chain h m (c # b # rest)"
    using chain_suffix by blast
  from c have m: "m = c" "c \<noteq> 0" and r: "chain h (h b) rest" by simp_all
  from d have "c \<notin> set pre" "c \<notin> set rest" by auto
  with p r m have "path (h(c := h b)) a pre c" "chain (h(c := h b)) (h b) rest"
    by (simp_all add: path_upd chain_upd)
  with m show ?thesis by (auto simp: chain_def path_append)
qed

lemma pool_blocks_unlink:
  assumes "pool_blocks h p (pre @ b # rest)"
  shows "pool_blocks (fst (unlink h p (if pre = [] then Head else Block (last pre)) (h b)))
           (snd (unlink h p (if pre = [] then Head else Block (last pre)) (h b))) (pre @ rest)"
proof (cases pre rule: rev_cases)
  case Nil
  with assms show ?thesis by (simp add: pool_blocks_def unlink_def)
next
  case (snoc pre' c)
  with assms have "chain h (mHead_mNext p) (pre' @ c # b # rest)"
    by (simp add: pool_blocks_def)
  then have "chain (h(c := h b)) (mHead_mNext p) (pre' @ c # rest)"
    by (rule chain_unlink_inner)
  with assms snoc show ?thesis by (simp add: pool_blocks_def unlink_def)
qed

lemma FetchAligned_hit:
  assumes "pool_blocks h p (pre @ b # rest)" "\<forall>x\<in>set pre. \<not> THERON_ALIGNED x alignment" "THERON_ALIGNED b alignment"
  shows "\<exists>h' p'. FetchAligned h p alignment = Some (b, h', p') \<and> pool_blocks h' p' (pre @ rest)
            \<and> (\<forall>a. a \<notin> set pre \<longrightarrow> h' a = h a)"
proof -
  let ?u = "unlink h p (if pre = [] then Head else Block (last pre)) (h b)"
  from assms have "FetchAligned h p alignment = Some (b, ?u)"
    unfolding FetchAligned_def
    by (intro FetchAligned_loop_hit) (auto simp: pool_blocks_def THERON_ALIGNED_def)
  moreover have "pool_blocks (fst ?u) (snd ?u) (pre @ rest)"
    using assms(1) by (rule pool_blocks_unlink)
  moreover have "\<forall>a. a \<notin> set pre \<longrightarrow> fst ?u a = h a"
    by (auto simp: unlink_def)
  ultimately show ?thesis by (metis prod.collapse)
qed

lemma FetchAligned_miss:
  assumes "pool_blocks h p bs" "\<forall>x\<in>set bs. \<not> THERON_ALIGNED x alignment"
  shows "FetchAligned h p alignment = Some (0, h, p)"
  using assms unfolding FetchAligned_def
  by (intro FetchAligned_loop_miss) (auto simp: pool_blocks_def THERON_ALIGNED_def)

lemma Add_below_capacity:
  assumes "pool_blocks h p bs" "length bs < 16" "b \<noteq> 0" "b \<notin> set bs"
  shows "\<exists>h' p'. Add h p b = Inr (True, h', p') \<and> pool_blocks h' p' (b # bs)"
proof -
  from assms have "mBlockCount p < MAX_BLOCKS"
    by (simp add: pool_blocks_def MAX_BLOCKS_def word_less_nat_alt unat_of_nat)
  with assms show ?thesis
    by (simp add: Add_def pool_blocks_def chain_upd)
qed

lemma Add_at_capacity:
  assumes "pool_blocks h p bs" "length bs = 16" "b \<noteq> 0"
  shows "Add h p b = Inr (False, h, p)"
  using assms by (simp add: Add_def pool_blocks_def MAX_BLOCKS_def)

lemma Fetch_nonempty:
  assumes "pool_blocks h p (b # bs)"
  shows "fst (Fetch h p) = b \<and> pool_blocks h (snd (Fetch h p)) bs"
  using assms by (simp add: Fetch_def pool_blocks_def)

lemma Fetch_empty:
  assumes "pool_blocks h p []"
  shows "Fetch h p = (0, p)"
  using assms by (simp add: Fetch_def pool_blocks_def)


subsection \<open>A run of operations keeps the list and the count together\<close>

lemma pool_blocks_ctor: "pool_blocks h Pool_ctor []"
  by (simp add: pool_blocks_def Pool_ctor_def)

lemma find_first_decomp:
  "find P bs = Some b \<Longrightarrow>
     \<exists>pre rest. bs = pre @ b # rest \<and> (\<forall>x\<in>set pre. \<not> P x) \<and> P b \<and> remove1 b bs = pre @ rest"
proof (induction bs)
  case Nil
  then show ?case by simp
next
  case (Cons c bs)
  show ?case
  proof (cases "P c")
    case True
    with Cons.prems have "c = b" by simp
    with True have "c # bs = [] @ b # bs \<and> (\<forall>x\<in>set []. \<not> P x) \<and> P b
        \<and> remove1 b (c # bs) = [] @ bs"
      by simp
    then show ?thesis by blast
  next
    case False
    with Cons obtain pre rest where
      d: "bs = pre @ b # rest" "\<forall>x\<in>set pre. \<not> P x" "P b" "remove1 b bs = pre @ rest"
      by auto
    from False d have "c \<noteq> b" by auto
    with False d have "c # bs = (c # pre) @ b # rest \<and> (\<forall>x\<in>set (c # pre). \<not> P x) \<and> P b
        \<and> remove1 b (c # bs) = (c # pre) @ rest"
      by simp
    then show ?thesis by blast
  qed
qed

lemma pool_step_refines:
  assumes "pool_blocks h p bs" and "adds_owned bs [x]"
  shows "\<exists>h' p'. pool_step (h, p) x = Some (h', p') \<and> pool_blocks h' p' (cached_after bs x)"
proof (cases x)
  case (DoAdd b)
  show ?thesis
  proof (cases "length bs < 16")
    case True
    with assms DoAdd obtain h' p' where
      "Add h p b = Inr (True, h', p')" "pool_blocks h' p' (b # bs)"
      using Add_below_capacity [of h p bs b] by auto
    with True DoAdd show ?thesis by simp
  next
    case False
    with assms have "length bs = 16" by (simp add: pool_blocks_def)
    with assms DoAdd have "Add h p b = Inr (False, h, p)"
      using Add_at_capacity [of h p bs b] by simp
    with False assms DoAdd show ?thesis by simp
  qed
next
  case DoFetch
  show ?thesis
  proof (cases bs)
    case Nil
    with assms DoFetch show ?thesis by (simp add: Fetch_empty)
  next
    case (Cons b rest)
    with assms DoFetch show ?thesis using Fetch_nonempty [of h p b rest] by simp
  qed
next
  case (DoFetchAligned alignment)
  show ?thesis
  proof (cases "find (\<lambda>b. THERON_ALIGNED b alignment) bs")
    case None
    then have "\<forall>x\<in>set bs. \<not> THERON_ALIGNED x alignment" by (simp add: find_None_iff)
    with assms have "FetchAligned h p alignment = Some (0, h, p)" by (simp add: FetchAligned_miss)
    with None assms DoFetchAligned show ?thesis by simp
  next
    case (Some b)
    then obtain pre rest where d: "bs = pre @ b # rest"
      "\<forall>x\<in>set pre. \<not> THERON_ALIGNED x alignment" "THERON_ALIGNED b alignment"
      "remove1 b bs = pre @ rest"
      using find_first_decomp [of "\<lambda>b. THERON_ALIGNED b alignment" bs b] by blast
    with assms obtain h' p' where
      "FetchAligned h p alignment = Some (b, h', p')" "pool_blocks h' p' (pre @ rest)"
      using FetchAligned_hit [of h p pre b rest alignment] by blast
    with Some d DoFetchAligned show ?thesis by simp
  qed
qed

lemma adds_owned_Cons:
  "adds_owned bs (x # ops) = (adds_owned bs [x] \<and> adds_owned (cached_after bs x) ops)"
  by (cases x) simp_all

text \<open>
  A sequence that hands over only blocks of the caller does so in each of its initial
  segments, so what holds after every such sequence holds at every point of one.
\<close>

lemma adds_owned_prefix: "adds_owned bs (ops @ ops') \<Longrightarrow> adds_owned bs ops"
proof (induction ops arbitrary: bs)
  case Nil
  then show ?case by simp
next
  case (Cons x ops)
  from Cons.prems have "adds_owned bs [x]" "adds_owned (cached_after bs x) (ops @ ops')"
    by (simp_all add: adds_owned_Cons [of bs x "ops @ ops'"])
  with Cons.IH show ?case by (simp add: adds_owned_Cons [of bs x ops])
qed

lemma pool_run_refines:
  "pool_blocks h p bs \<Longrightarrow> adds_owned bs ops \<Longrightarrow>
     \<exists>h' p'. pool_run (h, p) ops = Some (h', p')
        \<and> pool_blocks h' p' (foldl cached_after bs ops)"
proof (induction ops arbitrary: h p bs)
  case Nil
  then show ?case by simp
next
  case (Cons x ops)
  from Cons.prems have own: "adds_owned bs [x]" "adds_owned (cached_after bs x) ops"
    by (simp_all add: adds_owned_Cons [of bs x ops])
  with Cons.prems obtain h1 p1 where
    step: "pool_step (h, p) x = Some (h1, p1)" "pool_blocks h1 p1 (cached_after bs x)"
    using pool_step_refines by blast
  with own Cons.IH [of h1 p1 "cached_after bs x"] show ?case by simp
qed

lemma pool_blocks_count: "pool_blocks h p bs \<Longrightarrow> unat (mBlockCount p) = length bs"
  by (simp add: pool_blocks_def unat_of_nat)

lemma pool_blocks_Empty: "pool_blocks h p bs \<Longrightarrow> Pool_Empty p = Inr (bs = [])"
proof -
  assume pb: "pool_blocks h p bs"
  then have n: "unat (mBlockCount p) = length bs" by (rule pool_blocks_count)
  show ?thesis
  proof (cases bs)
    case Nil
    with pb show ?thesis by (simp add: pool_blocks_def Pool_Empty_def)
  next
    case (Cons b rest)
    with n have "mBlockCount p \<noteq> 0" by auto
    with pb Cons show ?thesis by (simp add: pool_blocks_def Pool_Empty_def)
  qed
qed

lemma pool_blocks_Fetch_null: "pool_blocks h p bs \<Longrightarrow> (fst (Fetch h p) = 0) = (bs = [])"
  by (cases bs) (simp_all add: pool_blocks_def Fetch_def)


lemma THERON_ALIGNED_power_of_two:
  assumes "k < 32"
  shows "THERON_ALIGNED a (2 ^ k) = (2 ^ k dvd unat a)"
proof -
  have "(2 ^ k :: uint32_t) - 1 = mask k" by (simp add: mask_eq_decr_exp)
  moreover from assms have "(ucast (mask k :: uint32_t) :: uintptr_t) = mask k"
    by (simp add: ucast_mask_eq)
  ultimately show ?thesis by (simp add: THERON_ALIGNED_def and_mask_dvd_nat)
qed

text \<open>
  For an alignment that is not a power of two the test is not divisibility: 24 divides
  48, and 48 does not pass the test for the alignment 24.
\<close>

lemma THERON_ALIGNED_24: "\<not> THERON_ALIGNED 48 24 \<and> (24::nat) dvd unat (48::uintptr_t)"
  by (simp add: THERON_ALIGNED_def)

text \<open>
  What the caller's side is for: \<open>Add\<close> does not look for the block in the pool.
  Adding the block at 8 twice to a new pool links the block to itself, and the pool then
  has no list.
\<close>

lemma Add_cached_block_again:
  "Add null_heap Pool_ctor 8
     = Inr (True, null_heap(8 := 0), \<lparr>mHead_mNext = 8, mBlockCount = 1\<rparr>)
   \<and> Add (null_heap(8 := 0)) \<lparr>mHead_mNext = 8, mBlockCount = 1\<rparr> 8
     = Inr (True, null_heap(8 := 8), \<lparr>mHead_mNext = 8, mBlockCount = 2\<rparr>)
   \<and> \<not> (\<exists>bs. chain (null_heap(8 := 8)) 8 bs)"
proof -
  have "\<not> chain (null_heap(8 := 8)) 8 bs" for bs
  proof
    assume c: "chain (null_heap(8 := 8)) 8 bs"
    then obtain rest where bs: "bs = 8 # rest" by (cases bs) auto
    with c have "chain (null_heap(8 := 8)) 8 rest" by simp
    with c have "bs = rest" by (rule chain_unique)
    with bs show False by simp
  qed
  then show ?thesis by (simp add: Add_def Pool_ctor_def MAX_BLOCKS_def)
qed

lemma example_pool_blocks: "pool_blocks example_heap example_pool [8, 16]"
  by (simp add: pool_blocks_def example_pool_def example_heap_def null_heap_def)

lemma full_pool_blocks:
  "pool_blocks full_heap full_pool
     [8, 16, 24, 32, 40, 48, 56, 64, 72, 80, 88, 96, 104, 112, 120, 128]"
  by (simp add: pool_blocks_def full_pool_def full_heap_def)

lemma example_ops_owned: "adds_owned [] example_ops"
  by (simp add: example_ops_def THERON_ALIGNED_def)

lemma example_ops_cached:
  "foldl cached_after [] example_ops
     = [112, 104, 96, 88, 80, 72, 64, 56, 48, 40, 32, 24, 16, 8]"
  by (simp add: example_ops_def THERON_ALIGNED_def)

subsection \<open>The claims about the pool\<close>

text \<open>
  Claim C4, amended. Starting from a newly constructed pool, after every sequence of
  \<open>Add\<close>, \<open>Fetch\<close> and \<open>FetchAligned\<close> operations in which every block handed to
  \<open>Add\<close> is not null and not in the pool already, the pool caches at most 16 blocks
  (the list in memory and the stored count alike). \<open>Add\<close> of such a block prepends it
  and returns true when the pool caches fewer than 16 blocks, and returns false and
  leaves the pool and the memory unchanged when it caches 16.
\<close>

theorem Pool_capacity:
  "(adds_owned [] ops \<longrightarrow>
      (\<exists>h' p'. pool_run (h0, Pool_ctor) ops = Some (h', p')
         \<and> pool_blocks h' p' (foldl cached_after [] ops)
         \<and> length (foldl cached_after [] ops) \<le> 16
         \<and> mBlockCount p' \<le> MAX_BLOCKS))
   \<and> (pool_blocks h p bs \<and> length bs < 16 \<and> b \<noteq> 0 \<and> b \<notin> set bs \<longrightarrow>
      (\<exists>h' p'. Add h p b = Inr (True, h', p') \<and> pool_blocks h' p' (b # bs)))
   \<and> (pool_blocks h p bs \<and> length bs = 16 \<and> b \<noteq> 0 \<longrightarrow> Add h p b = Inr (False, h, p))"
proof (intro conjI impI)
  assume "adds_owned [] ops"
  then obtain h' p' where run: "pool_run (h0, Pool_ctor) ops = Some (h', p')"
    and pb: "pool_blocks h' p' (foldl cached_after [] ops)"
    using pool_run_refines [OF pool_blocks_ctor] by blast
  from pb have len: "length (foldl cached_after [] ops) \<le> 16"
    by (simp add: pool_blocks_def)
  from pb have "unat (mBlockCount p') = length (foldl cached_after [] ops)"
    by (rule pool_blocks_count)
  with len have "mBlockCount p' \<le> MAX_BLOCKS"
    by (simp add: MAX_BLOCKS_def word_le_nat_alt)
  with run pb len show "\<exists>h' p'. pool_run (h0, Pool_ctor) ops = Some (h', p')
         \<and> pool_blocks h' p' (foldl cached_after [] ops)
         \<and> length (foldl cached_after [] ops) \<le> 16
         \<and> mBlockCount p' \<le> MAX_BLOCKS"
    by blast
next
  assume "pool_blocks h p bs \<and> length bs < 16 \<and> b \<noteq> 0 \<and> b \<notin> set bs"
  then show "\<exists>h' p'. Add h p b = Inr (True, h', p') \<and> pool_blocks h' p' (b # bs)"
    using Add_below_capacity [of h p bs b] by simp
next
  assume "pool_blocks h p bs \<and> length bs = 16 \<and> b \<noteq> 0"
  then show "Add h p b = Inr (False, h, p)"
    using Add_at_capacity [of h p bs b] by simp
qed

theorem Pool_capacity_witness:
  "adds_owned [] example_ops
   \<and> (\<exists>h' p'. pool_run (null_heap, Pool_ctor) example_ops = Some (h', p')
         \<and> pool_blocks h' p' [112, 104, 96, 88, 80, 72, 64, 56, 48, 40, 32, 24, 16, 8]
         \<and> mBlockCount p' \<le> MAX_BLOCKS)
   \<and> pool_blocks example_heap example_pool [8, 16]
   \<and> (\<exists>h' p'. Add example_heap example_pool 32 = Inr (True, h', p')
         \<and> pool_blocks h' p' [32, 8, 16])
   \<and> pool_blocks full_heap full_pool
        [8, 16, 24, 32, 40, 48, 56, 64, 72, 80, 88, 96, 104, 112, 120, 128]
   \<and> Add full_heap full_pool 136 = Inr (False, full_heap, full_pool)"
  using Pool_capacity [where ops = example_ops and ?h0.0 = null_heap and h = example_heap
          and p = example_pool and bs = "[8, 16]" and b = 32]
        Pool_capacity [where ops = "[]" and h = full_heap and p = full_pool
          and bs = "[8, 16, 24, 32, 40, 48, 56, 64, 72, 80, 88, 96, 104, 112, 120, 128]"
          and b = 136]
        example_ops_owned example_ops_cached example_pool_blocks full_pool_blocks
  by simp


text \<open>
  Claim C4 as written, for every sequence of operations, does not hold: \<open>Add\<close> does
  not look for the block in the pool. Adding the block at 8 twice links it to itself;
  each of three \<open>Fetch\<close> calls then finds the head not null and decrements the count,
  which wraps below zero and ends far above 16.
\<close>

theorem Pool_capacity_counterexample:
  "pool_run (null_heap, Pool_ctor) [DoAdd 8, DoAdd 8, DoFetch, DoFetch, DoFetch]
     = Some (null_heap(8 := 8), \<lparr>mHead_mNext = 8, mBlockCount = 0xFFFFFFFF\<rparr>)
   \<and> \<not> mBlockCount \<lparr>mHead_mNext = 8, mBlockCount = 0xFFFFFFFF\<rparr> \<le> MAX_BLOCKS"
  by (simp add: Add_def Fetch_def Pool_ctor_def MAX_BLOCKS_def null_heap_def)

text \<open>
  Claim C5. For every pool and every alignment, \<open>FetchAligned\<close> returns the first block
  of the pool's list whose address satisfies the alignment, removes it and leaves the
  other blocks in their order; it returns null, and changes nothing, when no block of
  the pool satisfies the alignment. An address satisfies an alignment when it passes the
  test of the code, \<^verbatim>\<open>THERON_ALIGNED\<close>; for an alignment that is a power of two this
  says that the alignment divides the address.
\<close>

theorem FetchAligned_first_aligned:
  "(pool_blocks h p (pre @ b # rest) \<and> (\<forall>x\<in>set pre. \<not> THERON_ALIGNED x alignment)
      \<and> THERON_ALIGNED b alignment \<longrightarrow>
      (\<exists>h' p'. FetchAligned h p alignment = Some (b, h', p')
         \<and> pool_blocks h' p' (pre @ rest)))
   \<and> (pool_blocks h p bs \<and> (\<forall>x\<in>set bs. \<not> THERON_ALIGNED x alignment) \<longrightarrow>
      FetchAligned h p alignment = Some (0, h, p))
   \<and> (k < 32 \<longrightarrow> THERON_ALIGNED a (2 ^ k) = (2 ^ k dvd unat a))"
proof (intro conjI impI)
  assume "pool_blocks h p (pre @ b # rest) \<and> (\<forall>x\<in>set pre. \<not> THERON_ALIGNED x alignment)
      \<and> THERON_ALIGNED b alignment"
  then show "\<exists>h' p'. FetchAligned h p alignment = Some (b, h', p')
      \<and> pool_blocks h' p' (pre @ rest)"
    using FetchAligned_hit [of h p pre b rest alignment] by blast
next
  assume "pool_blocks h p bs \<and> (\<forall>x\<in>set bs. \<not> THERON_ALIGNED x alignment)"
  then show "FetchAligned h p alignment = Some (0, h, p)"
    using FetchAligned_miss [of h p bs alignment] by blast
next
  assume "k < 32"
  then show "THERON_ALIGNED a (2 ^ k) = (2 ^ k dvd unat a)"
    by (rule THERON_ALIGNED_power_of_two)
qed

theorem FetchAligned_first_aligned_witness:
  "pool_blocks example_heap example_pool [8, 16]
   \<and> \<not> THERON_ALIGNED 8 16 \<and> THERON_ALIGNED 16 16
   \<and> (\<exists>h' p'. FetchAligned example_heap example_pool 16 = Some (16, h', p')
         \<and> pool_blocks h' p' [8])
   \<and> \<not> THERON_ALIGNED 8 32 \<and> \<not> THERON_ALIGNED 16 32
   \<and> FetchAligned example_heap example_pool 32 = Some (0, example_heap, example_pool)
   \<and> THERON_ALIGNED 48 16 = ((16::nat) dvd unat (48::uintptr_t))"
proof -
  have a: "\<not> THERON_ALIGNED 8 16" "THERON_ALIGNED 16 16"
    "\<not> THERON_ALIGNED 8 32" "\<not> THERON_ALIGNED 16 32"
    by (simp_all add: THERON_ALIGNED_def)
  show ?thesis
    using FetchAligned_first_aligned [where h = example_heap and p = example_pool
            and pre = "[8]" and b = 16 and rest = "[]" and alignment = 16 and bs = "[]"
            and k = 4 and a = 48]
          FetchAligned_first_aligned [where h = example_heap and p = example_pool
            and pre = "[]" and b = 0 and rest = "[]" and alignment = 32 and bs = "[8, 16]"
            and k = 4 and a = 48]
          a example_pool_blocks
    by simp
qed



text \<open>
  Claim C10, amended. Starting from a newly constructed pool, after every sequence of
  \<open>Add\<close>, \<open>Fetch\<close> and \<open>FetchAligned\<close> operations in which every block handed to
  \<open>Add\<close> is not null and not in the pool already, every operation has returned, the
  stored block count is the number of nodes of the pool's free list, \<open>Empty\<close> returns
  true exactly when the pool holds no block, and \<open>Fetch\<close> returns null exactly when
  \<open>Empty\<close> returns true.
\<close>

theorem Pool_count_matches_list:
  assumes "adds_owned [] ops"
  shows "\<exists>h' p' bs. pool_run (h0, Pool_ctor) ops = Some (h', p')
           \<and> bs = foldl cached_after [] ops
           \<and> chain h' (mHead_mNext p') bs
           \<and> unat (mBlockCount p') = length bs
           \<and> Pool_Empty p' = Inr (bs = [])
           \<and> ((fst (Fetch h' p') = 0) = (Pool_Empty p' = Inr True))"
proof -
  from assms obtain h' p' where run: "pool_run (h0, Pool_ctor) ops = Some (h', p')"
    and pb: "pool_blocks h' p' (foldl cached_after [] ops)"
    using pool_run_refines [OF pool_blocks_ctor] by blast
  from pb have "chain h' (mHead_mNext p') (foldl cached_after [] ops)"
    by (simp add: pool_blocks_def)
  moreover from pb have "unat (mBlockCount p') = length (foldl cached_after [] ops)"
    by (rule pool_blocks_count)
  moreover from pb have e: "Pool_Empty p' = Inr (foldl cached_after [] ops = [])"
    by (rule pool_blocks_Empty)
  moreover from pb have "(fst (Fetch h' p') = 0) = (foldl cached_after [] ops = [])"
    by (rule pool_blocks_Fetch_null)
  with e have "(fst (Fetch h' p') = 0) = (Pool_Empty p' = Inr True)" by simp
  ultimately show ?thesis using run by blast
qed

theorem Pool_count_matches_list_witness:
  "adds_owned [] example_ops
   \<and> (\<exists>h' p'. pool_run (null_heap, Pool_ctor) example_ops = Some (h', p')
         \<and> chain h' (mHead_mNext p')
              [112, 104, 96, 88, 80, 72, 64, 56, 48, 40, 32, 24, 16, 8]
         \<and> unat (mBlockCount p') = 14
         \<and> Pool_Empty p' = Inr False
         \<and> fst (Fetch h' p') \<noteq> 0)
   \<and> adds_owned [] [DoAdd 8, DoFetch]
   \<and> (\<exists>h' p'. pool_run (null_heap, Pool_ctor) [DoAdd 8, DoFetch] = Some (h', p')
         \<and> chain h' (mHead_mNext p') []
         \<and> unat (mBlockCount p') = 0
         \<and> Pool_Empty p' = Inr True
         \<and> fst (Fetch h' p') = 0)"
proof -
  from Pool_count_matches_list [OF example_ops_owned, of null_heap]
  obtain h1 p1 where r1: "pool_run (null_heap, Pool_ctor) example_ops = Some (h1, p1)"
    and c1: "chain h1 (mHead_mNext p1) (foldl cached_after [] example_ops)"
    and n1: "unat (mBlockCount p1) = length (foldl cached_after [] example_ops)"
    and e1: "Pool_Empty p1 = Inr (foldl cached_after [] example_ops = [])"
    and f1: "(fst (Fetch h1 p1) = 0) = (Pool_Empty p1 = Inr True)"
    by blast
  from c1 have c1': "chain h1 (mHead_mNext p1)
      [112, 104, 96, 88, 80, 72, 64, 56, 48, 40, 32, 24, 16, 8]"
    by (simp only: example_ops_cached)
  from n1 have n1': "unat (mBlockCount p1) = 14" by (simp add: example_ops_cached)
  from e1 have e1': "Pool_Empty p1 = Inr False" by (simp add: example_ops_cached)
  from f1 e1' have f1': "fst (Fetch h1 p1) \<noteq> 0" by simp
  have owned: "adds_owned [] [DoAdd 8, DoFetch]" by simp
  have cached: "foldl cached_after [] [DoAdd 8, DoFetch] = []" by simp
  from Pool_count_matches_list [OF owned, of null_heap]
  obtain h2 p2 where r2: "pool_run (null_heap, Pool_ctor) [DoAdd 8, DoFetch] = Some (h2, p2)"
    and c2: "chain h2 (mHead_mNext p2) (foldl cached_after [] [DoAdd 8, DoFetch])"
    and n2: "unat (mBlockCount p2) = length (foldl cached_after [] [DoAdd 8, DoFetch])"
    and e2: "Pool_Empty p2 = Inr (foldl cached_after [] [DoAdd 8, DoFetch] = [])"
    and f2: "(fst (Fetch h2 p2) = 0) = (Pool_Empty p2 = Inr True)"
    by blast
  from c2 have c2': "chain h2 (mHead_mNext p2) []" by (simp only: cached)
  from n2 have n2': "unat (mBlockCount p2) = 0" by (simp only: cached list.size)
  from e2 have e2': "Pool_Empty p2 = Inr True" by (simp only: cached simp_thms)
  from f2 e2' have f2': "fst (Fetch h2 p2) = 0" by simp
  from r1 c1' n1' e1' f1' r2 c2' n2' e2' f2' example_ops_owned owned show ?thesis
    by blast
qed


text \<open>
  Claim C10 as written, for every sequence of operations, does not hold. After adding
  the block at 8 twice the stored count is 2, and the list from the head has the one
  node 8, linked to itself. Two \<open>Fetch\<close> calls later the count is 0 and the head is
  still the block at 8: the assertion of \<open>Empty\<close> fails, and \<open>Fetch\<close> returns the block,
  not null, although the count that \<open>Empty\<close> tests is zero.
\<close>

theorem Pool_count_matches_list_counterexample:
  "pool_run (null_heap, Pool_ctor) [DoAdd 8, DoAdd 8]
     = Some (null_heap(8 := 8), \<lparr>mHead_mNext = 8, mBlockCount = 2\<rparr>)
   \<and> (null_heap(8 := 8)) 8 = 8
   \<and> pool_run (null_heap, Pool_ctor) [DoAdd 8, DoAdd 8, DoFetch, DoFetch]
     = Some (null_heap(8 := 8), \<lparr>mHead_mNext = 8, mBlockCount = 0\<rparr>)
   \<and> Pool_Empty \<lparr>mHead_mNext = 8, mBlockCount = 0\<rparr> = Inl AssertionFailed
   \<and> fst (Fetch (null_heap(8 := 8)) \<lparr>mHead_mNext = 8, mBlockCount = 0\<rparr>) = 8"
  by (simp add: Add_def Fetch_def Pool_ctor_def MAX_BLOCKS_def null_heap_def Pool_Empty_def)

end
